theory Spec2Isabelle
  imports Main
begin

section \<open>JobRunner: the background job executor\<close>

subsection \<open>Values, errors and promises\<close>

text \<open>
  A payload is a JavaScript object, kept as its list of properties; \<open>{}\<close> is the
  empty list.
\<close>

type_synonym 'v payload = "(string \<times> 'v) list"

text \<open>
  A value that reaches a \<open>catch\<close> clause. JavaScript lets a function throw, and a
  promise reject with, any value: \<open>Nullish\<close> is \<open>null\<close> or \<open>undefined\<close>
  (\<open>Promise.reject()\<close>), \<open>Thrown m e\<close> is any other value \<open>e\<close> with its
  \<open>message\<close> property \<open>m\<close> (\<open>None\<close> when it has none),
  \<open>TimeoutError\<close> is the \<open>new Error("Job execution timed out")\<close> of
  \<open>_runWithTimeout\<close>, and \<open>TypeError\<close> is what the runtime raises when a
  property of a nullish value is read.
\<close>

datatype 'e thrown =
    Nullish
  | Thrown "string option" 'e
  | TimeoutError
  | TypeError

text \<open>The expression \<open>error.message\<close>: reading a property of a nullish value raises.\<close>

fun get_message :: "'e thrown \<Rightarrow> 'e thrown + string option" where
  "get_message Nullish = Inl TypeError"
| "get_message (Thrown m e) = Inr m"
| "get_message TimeoutError = Inr (Some ''Job execution timed out'')"
| "get_message TypeError = Inr (Some ''Cannot read properties of undefined'')"

text \<open>
  The call \<open>this.handler(payload)\<close> runs for some milliseconds, during which
  nothing else happens in the process, and then either throws or returns a
  promise: \<open>Throws b e\<close> and \<open>Returns b p\<close>, after \<open>b\<close> milliseconds. The
  promise is given by the way it settles: \<open>Fulfils t r\<close> and \<open>Rejects t e\<close>
  settle \<open>t\<close> milliseconds after the handler returned (\<open>0\<close>: settled already,
  or a plain value), \<open>Pending\<close> never settles.
\<close>

datatype ('e, 'r) promise =
    Fulfils nat 'r
  | Rejects nat "'e thrown"
  | Pending

datatype ('e, 'r) invocation =
    Throws nat "'e thrown"
  | Returns nat "('e, 'r) promise"

subsection \<open>Numbers and timers\<close>

text \<open>
  The numbers of the configuration are integers. A product is computed on
  doubles: it is exact up to \<open>2^53\<close> in absolute value; beyond that it is
  rounded or infinite, and no value is kept for it (\<open>None\<close>).
\<close>

definition js_times :: "int \<Rightarrow> int \<Rightarrow> int option" where
  "js_times a b = (if \<bar>a * b\<bar> \<le> 2 ^ 53 then Some (a * b) else None)"

text \<open>
  \<open>setTimeout(callback, delay)\<close> in Node.js: the milliseconds after which the
  callback runs. A delay below 1 or above \<open>2^31 - 1\<close> is set to 1.
\<close>

fun timer_delay :: "int option \<Rightarrow> nat" where
  "timer_delay (Some ms) = (if 1 \<le> ms \<and> ms \<le> 2147483647 then nat ms else 1)"
| "timer_delay None = 1"

subsection \<open>The runner and the machine it runs on\<close>

text \<open>
  The fields the constructor stores. The handler is an impure function: it reads
  and changes a world \<open>'w\<close> that is passed explicitly.
\<close>

record ('w, 'v, 'e, 'r) job_runner =
  jobName :: string
  handler :: "'v payload \<Rightarrow> 'w \<Rightarrow> ('e, 'r) invocation \<times> 'w"
  maxRetries :: int
  backoffMs :: int
  timeoutMs :: int

text \<open>
  The constructor's argument object: a property that is absent (or \<open>undefined\<close>)
  is \<open>None\<close> and takes the default of the destructuring pattern.
\<close>

record ('w, 'v, 'e, 'r) job_options =
  opt_jobName :: string
  opt_handler :: "'v payload \<Rightarrow> 'w \<Rightarrow> ('e, 'r) invocation \<times> 'w"
  opt_maxRetries :: "int option"
  opt_backoffMs :: "int option"
  opt_timeoutMs :: "int option"

definition constructor ::
  "('w, 'v, 'e, 'r) job_options \<Rightarrow> ('w, 'v, 'e, 'r) job_runner" where
  "constructor opts =
     \<lparr> jobName = opt_jobName opts,
       handler = opt_handler opts,
       maxRetries = (case opt_maxRetries opts of None \<Rightarrow> 3 | Some n \<Rightarrow> n),
       backoffMs = (case opt_backoffMs opts of None \<Rightarrow> 2000 | Some n \<Rightarrow> n),
       timeoutMs = (case opt_timeoutMs opts of None \<Rightarrow> 5000 | Some n \<Rightarrow> n) \<rparr>"

text \<open>
  What a run leaves behind: the console lines, each invocation of the handler and
  of the dead-letter hook, and the milliseconds of each backoff timer awaited.
\<close>

datatype ('v, 'e) event =
    LogStart string int
  | LogSuccess string int
  | LogFailed string int "string option" "'v payload"
  | LogRetry string "int option"
  | LogDeadLetter string "string option" "'v payload"
  | HandlerCalled "'v payload"
  | DeadLetterCalled "'e thrown" "'v payload"
  | Slept nat

record ('w, 'v, 'e) machine =
  world :: 'w
  clock :: nat
  trace :: "('v, 'e) event list"

definition emit ::
  "('v, 'e) event \<Rightarrow> ('w, 'v, 'e) machine \<Rightarrow> ('w, 'v, 'e) machine" where
  "emit ev st = st\<lparr>trace := trace st @ [ev]\<rparr>"

definition advance :: "nat \<Rightarrow> ('w, 'v, 'e) machine \<Rightarrow> ('w, 'v, 'e) machine" where
  "advance ms st = st\<lparr>clock := clock st + ms\<rparr>"

subsection \<open>The methods\<close>

text \<open>
  \<open>Promise.race([promise, timeoutPromise])\<close>: the outcome and the time it took,
  counted from the moment the handler returned, which is when the timer is set.
  What the operation started, it started before that, so a promise that settles
  no later than the timer fires wins. The \<open>finally\<close> clause only releases the
  timer.
\<close>

fun race :: "('e, 'r) promise \<Rightarrow> int \<Rightarrow> ('e thrown + 'r) \<times> nat" where
  "race (Fulfils t r) ms =
     (if t \<le> timer_delay (Some ms) then (Inr r, t)
      else (Inl TimeoutError, timer_delay (Some ms)))"
| "race (Rejects t e) ms =
     (if t \<le> timer_delay (Some ms) then (Inl e, t)
      else (Inl TimeoutError, timer_delay (Some ms)))"
| "race Pending ms = (Inl TimeoutError, timer_delay (Some ms))"

definition runWithTimeout ::
  "('e, 'r) promise \<Rightarrow> int \<Rightarrow> ('w, 'v, 'e) machine
     \<Rightarrow> ('e thrown + 'r) \<times> ('w, 'v, 'e) machine" where
  "runWithTimeout p ms st = (case race p ms of (out, t) \<Rightarrow> (out, advance t st))"

definition backoff ::
  "('w, 'v, 'e, 'r) job_runner \<Rightarrow> int \<Rightarrow> ('w, 'v, 'e) machine \<Rightarrow> ('w, 'v, 'e) machine" where
  "backoff jr attempt st =
     (let delay = js_times (backoffMs jr) attempt
      in advance (timer_delay delay)
           (emit (Slept (timer_delay delay)) (emit (LogRetry (jobName jr) delay) st)))"

text \<open>
  The dead-letter hook logs \<open>error.message\<close>, the payload and a timestamp (left
  out here); \<open>DeadLetterCalled\<close> marks the invocation with its arguments.
\<close>

definition moveToDeadLetterQueue ::
  "('w, 'v, 'e, 'r) job_runner \<Rightarrow> 'e thrown \<Rightarrow> 'v payload \<Rightarrow> ('w, 'v, 'e) machine
     \<Rightarrow> ('e thrown + unit) \<times> ('w, 'v, 'e) machine" where
  "moveToDeadLetterQueue jr error payload st =
     (let st1 = emit (DeadLetterCalled error payload) st
      in case get_message error of
           Inl te \<Rightarrow> (Inl te, st1)
         | Inr m \<Rightarrow> (Inr (), emit (LogDeadLetter (jobName jr) m payload) st1))"

text \<open>How one pass through the body of the \<open>while\<close> loop ends.\<close>

datatype ('e, 'r) step = Return 'r | Throw "'e thrown" | Continue

text \<open>
  The body of the loop after \<open>attempt++\<close>: the \<open>try\<close> block, then the
  \<open>catch\<close> block. An exception raised inside the \<open>catch\<close> block leaves
  \<open>run\<close>.
\<close>

definition run_attempt ::
  "('w, 'v, 'e, 'r) job_runner \<Rightarrow> 'v payload \<Rightarrow> int \<Rightarrow> ('w, 'v, 'e) machine
     \<Rightarrow> ('e, 'r) step \<times> ('w, 'v, 'e) machine" where
  "run_attempt jr payload attempt st =
     (let st1 = emit (LogStart (jobName jr) attempt) st;
          called = handler jr payload (world st1);
          st2 = emit (HandlerCalled payload) (st1\<lparr>world := snd called\<rparr>);
          settled = (case fst called of
                       Throws b e \<Rightarrow> (Inl e, advance b st2)
                     | Returns b p \<Rightarrow> runWithTimeout p (timeoutMs jr) (advance b st2))
      in case settled of
           (Inr result, st3) \<Rightarrow> (Return result, emit (LogSuccess (jobName jr) attempt) st3)
         | (Inl error, st3) \<Rightarrow>
             (case get_message error of
                Inl te \<Rightarrow> (Throw te, st3)
              | Inr m \<Rightarrow>
                  (let st4 = emit (LogFailed (jobName jr) attempt m payload) st3
                   in if attempt > maxRetries jr then
                        (case moveToDeadLetterQueue jr error payload st4 of
                           (Inl te, st5) \<Rightarrow> (Throw te, st5)
                         | (Inr u, st5) \<Rightarrow> (Throw error, st5))
                      else (Continue, backoff jr attempt st4))))"

text \<open>
  The \<open>while\<close> loop, from the value \<open>attempt\<close> has at the loop's guard. A run
  that falls out of the loop resolves with \<open>undefined\<close>: \<open>Inr None\<close>. The
  counter is an integer: \<open>attempt++\<close> is exact below \<open>2^53\<close>, which a run
  reaches only after that many failed attempts, each followed by a backoff timer
  of at least one millisecond.
\<close>

function run_loop ::
  "('w, 'v, 'e, 'r) job_runner \<Rightarrow> 'v payload \<Rightarrow> int \<Rightarrow> ('w, 'v, 'e) machine
     \<Rightarrow> ('e thrown + 'r option) \<times> ('w, 'v, 'e) machine" where
  "run_loop jr payload attempt st =
     (if attempt \<le> maxRetries jr then
        (case run_attempt jr payload (attempt + 1) st of
           (Return result, st') \<Rightarrow> (Inr (Some result), st')
         | (Throw error, st') \<Rightarrow> (Inl error, st')
         | (Continue, st') \<Rightarrow> run_loop jr payload (attempt + 1) st')
      else (Inr None, st))"
  by pat_completeness auto
termination
  by (relation "measure (\<lambda>(jr, payload, attempt, st). nat (maxRetries jr + 1 - attempt))") auto

declare run_loop.simps [simp del]

definition run ::
  "('w, 'v, 'e, 'r) job_runner \<Rightarrow> 'v payload option \<Rightarrow> ('w, 'v, 'e) machine
     \<Rightarrow> ('e thrown + 'r option) \<times> ('w, 'v, 'e) machine" where
  "run jr arg st =
     run_loop jr (case arg of None \<Rightarrow> [] | Some payload \<Rightarrow> payload) 0 st"

subsection \<open>Observations on a run\<close>

text \<open>
  What the claims count: the invocations of the handler, the invocations of the
  dead-letter hook with their arguments, and the backoff delays, in order.
\<close>

fun handler_calls :: "('v, 'e) event list \<Rightarrow> nat" where
  "handler_calls [] = 0"
| "handler_calls (HandlerCalled p # tr) = Suc (handler_calls tr)"
| "handler_calls (ev # tr) = handler_calls tr"

fun dead_letters :: "('v, 'e) event list \<Rightarrow> ('e thrown \<times> 'v payload) list" where
  "dead_letters [] = []"
| "dead_letters (DeadLetterCalled e p # tr) = (e, p) # dead_letters tr"
| "dead_letters (ev # tr) = dead_letters tr"

fun delays :: "('v, 'e) event list \<Rightarrow> nat list" where
  "delays [] = []"
| "delays (Slept d # tr) = d # delays tr"
| "delays (ev # tr) = delays tr"

text \<open>
  What an attempt started in world \<open>w\<close> yields, and after how long: the error of a
  handler that throws, or else the outcome of the race, after the time the handler
  ran and the time the race took.
\<close>

definition attempt_result ::
  "('w, 'v, 'e, 'r) job_runner \<Rightarrow> 'v payload \<Rightarrow> 'w \<Rightarrow> ('e thrown + 'r) \<times> nat" where
  "attempt_result jr payload w =
     (case fst (handler jr payload w) of
        Throws b e \<Rightarrow> (Inl e, b)
      | Returns b p \<Rightarrow> (case race p (timeoutMs jr) of (out, t) \<Rightarrow> (out, b + t)))"

text \<open>The world after \<open>i\<close> invocations of the handler, starting from \<open>w\<close>.\<close>

fun world_before :: "('w, 'v, 'e, 'r) job_runner \<Rightarrow> 'v payload \<Rightarrow> 'w \<Rightarrow> nat \<Rightarrow> 'w" where
  "world_before jr payload w 0 = w"
| "world_before jr payload w (Suc i) = world_before jr payload (snd (handler jr payload w)) i"


section \<open>The server bootstrap: retry helper and circuit breaker\<close>

subsection \<open>State\<close>

text \<open>
  The two module variables of the circuit breaker, the clock that \<open>Date.now()\<close>
  reads (milliseconds since the epoch), the world outside the process in which the
  dependency lives, and a journal of what the code did.
\<close>

datatype 'e server_event =
    Invoked
  | Paused nat
  | WarnCircuitOpen
  | CriticalCircuitOpened
  | ErrorDependencyFailure 'e

record ('w, 'e) server =
  dependencyFailures :: nat
  circuitOpenUntil :: "nat option"
  date_now :: nat
  net :: 'w
  journal :: "'e server_event list"

definition journal_add :: "'e server_event \<Rightarrow> ('w, 'e) server \<Rightarrow> ('w, 'e) server" where
  "journal_add ev st = st\<lparr>journal := journal st @ [ev]\<rparr>"

definition elapse :: "nat \<Rightarrow> ('w, 'e) server \<Rightarrow> ('w, 'e) server" where
  "elapse ms st = st\<lparr>date_now := date_now st + ms\<rparr>"

text \<open>
  An asynchronous function without arguments: called in a world, it yields its
  outcome (\<open>Inl\<close>: it throws or its promise rejects), the time that took and the
  world it leaves.
\<close>

type_synonym ('w, 'e, 'a) async_fn = "'w \<Rightarrow> (('e + 'a) \<times> nat) \<times> 'w"

subsection \<open>retryRequest\<close>

text \<open>
  \<open>Invoked\<close> marks each call \<open>fn()\<close>, \<open>Paused 500\<close> the timer awaited before
  the recursive call.
\<close>

function retryRequest ::
  "('w, 'e, 'a) async_fn \<Rightarrow> int \<Rightarrow> ('w, 'e) server \<Rightarrow> ('e + 'a) \<times> ('w, 'e) server" where
  "retryRequest fn retries st =
     (let called = fn (net st);
          st1 = elapse (snd (fst called)) ((journal_add Invoked st)\<lparr>net := snd called\<rparr>)
      in case fst (fst called) of
           Inr result \<Rightarrow> (Inr result, st1)
         | Inl err \<Rightarrow>
             if retries \<le> 0 then (Inl err, st1)
             else retryRequest fn (retries - 1) (elapse 500 (journal_add (Paused 500) st1)))"
  by pat_completeness auto
termination
  by (relation "measure (\<lambda>(fn, retries, st). nat retries)") auto

declare retryRequest.simps [simp del]

text \<open>The default of the parameter: \<open>retries = 2\<close>.\<close>

definition retryRequest_opt ::
  "('w, 'e, 'a) async_fn \<Rightarrow> int option \<Rightarrow> ('w, 'e) server \<Rightarrow> ('e + 'a) \<times> ('w, 'e) server" where
  "retryRequest_opt fn arg st =
     retryRequest fn (case arg of None \<Rightarrow> 2 | Some retries \<Rightarrow> retries) st"

subsection \<open>The circuit breaker\<close>

text \<open>
  \<open>circuitOpenUntil && Date.now() < circuitOpenUntil\<close>: \<open>null\<close> and \<open>0\<close> are
  falsy.
\<close>

definition isCircuitOpen :: "('w, 'e) server \<Rightarrow> bool" where
  "isCircuitOpen st =
     (case circuitOpenUntil st of
        None \<Rightarrow> False
      | Some until \<Rightarrow> until \<noteq> 0 \<and> date_now st < until)"

definition recordFailure :: "('w, 'e) server \<Rightarrow> ('w, 'e) server" where
  "recordFailure st =
     (let st1 = st\<lparr>dependencyFailures := dependencyFailures st + 1\<rparr>
      in if dependencyFailures st1 \<ge> 5 then
           journal_add CriticalCircuitOpened (st1\<lparr>circuitOpenUntil := Some (date_now st1 + 60 * 1000)\<rparr>)
         else st1)"

definition recordSuccess :: "('w, 'e) server \<Rightarrow> ('w, 'e) server" where
  "recordSuccess st = st\<lparr>dependencyFailures := 0, circuitOpenUntil := None\<rparr>"

text \<open>
  \<open>req.callDependency\<close>. The HTTP client \<open>apiClient.request\<close> is a library
  function (an axios instance) and a parameter here: for a request configuration
  it is an asynchronous function that fulfils with a response object, of which the
  result kept is \<open>response.data\<close>, or rejects with an error object, so that
  \<open>response.data\<close> and \<open>err.message\<close> can be read. A value is \<open>None\<close>
  when it is \<open>null\<close>, the default of \<open>fallback\<close>.
\<close>

definition callDependency ::
  "('c \<Rightarrow> ('w, 'e, 'd option) async_fn) \<Rightarrow> 'c \<Rightarrow> 'd option \<Rightarrow> ('w, 'e) server
     \<Rightarrow> 'd option \<times> ('w, 'e) server" where
  "callDependency request config fallback st =
     (if isCircuitOpen st then (fallback, journal_add WarnCircuitOpen st)
      else case retryRequest_opt (request config) None st of
             (Inr data, st') \<Rightarrow> (data, recordSuccess st')
           | (Inl err, st') \<Rightarrow> (fallback, journal_add (ErrorDependencyFailure err) (recordFailure st')))"

text \<open>Observations: the calls issued and the pauses taken, in order.\<close>

fun invocations :: "'e server_event list \<Rightarrow> nat" where
  "invocations [] = 0"
| "invocations (Invoked # tr) = Suc (invocations tr)"
| "invocations (ev # tr) = invocations tr"


text \<open>The world after \<open>i\<close> calls of \<open>fn\<close>, and the outcome of the next call.\<close>

fun net_before :: "('w, 'e, 'a) async_fn \<Rightarrow> 'w \<Rightarrow> nat \<Rightarrow> 'w" where
  "net_before fn w 0 = w"
| "net_before fn w (Suc i) = net_before fn (snd (fn w)) i"

definition outcome_of :: "('w, 'e, 'a) async_fn \<Rightarrow> 'w \<Rightarrow> nat \<Rightarrow> 'e + 'a" where
  "outcome_of fn w i = fst (fst (fn (net_before fn w i)))"

subsection \<open>Overlapping calls\<close>

text \<open>
  \<open>callDependency\<close> is an \<open>async\<close> function: it runs until its next
  \<open>await\<close>, and other requests of the server run in between. A call is
  \<open>Awaiting\<close> while a request of \<open>retryRequest(fn, retries)\<close> is in flight,
  \<open>Sleeping\<close> while the 500 ms timer set at the given time is pending, and
  \<open>Finished\<close> with the value it returned.
\<close>

datatype ('c, 'd) call_state =
    Awaiting 'c "'d option" int
  | Sleeping 'c "'d option" int nat
  | Finished "'d option"

text \<open>
  From the call to the first \<open>await\<close>: the test of \<open>isCircuitOpen\<close>,
  then \<open>retryRequest\<close> with its default of 2 retries issues the first request.
\<close>

definition begin_call ::
  "'c \<Rightarrow> 'd option \<Rightarrow> ('w, 'e) server \<Rightarrow> ('c, 'd) call_state \<times> ('w, 'e) server" where
  "begin_call config fallback st =
     (if isCircuitOpen st then (Finished fallback, journal_add WarnCircuitOpen st)
      else (Awaiting config fallback 2, journal_add Invoked st))"

text \<open>
  The request in flight settles: a response returns through \<open>retryRequest\<close> to
  \<open>recordSuccess\<close>; an error either leaves \<open>retryRequest\<close> and reaches the
  \<open>catch\<close> clause of \<open>callDependency\<close>, or starts the timer.
\<close>

fun on_settled ::
  "('c, 'd) call_state \<Rightarrow> 'e + 'd option \<Rightarrow> ('w, 'e) server \<Rightarrow> ('c, 'd) call_state \<times> ('w, 'e) server" where
  "on_settled (Awaiting config fallback retries) (Inr data) st = (Finished data, recordSuccess st)"
| "on_settled (Awaiting config fallback retries) (Inl err) st =
     (if retries \<le> 0 then
        (Finished fallback, journal_add (ErrorDependencyFailure err) (recordFailure st))
      else (Sleeping config fallback retries (date_now st), journal_add (Paused 500) st))"
| "on_settled call outcome st = (call, st)"

text \<open>The timer fires: \<open>retryRequest(fn, retries - 1)\<close> issues the next request.\<close>

fun on_timer :: "('c, 'd) call_state \<Rightarrow> ('w, 'e) server \<Rightarrow> ('c, 'd) call_state \<times> ('w, 'e) server" where
  "on_timer (Sleeping config fallback retries since) st =
     (Awaiting config fallback (retries - 1), journal_add Invoked st)"
| "on_timer call st = (call, st)"

text \<open>
  What the event loop delivers: a new call of \<open>callDependency\<close>, the settling of
  the request of a call, the timer of a call, or the passing of time. An event that
  cannot happen in a state (no such request in flight, timer not yet due) gives
  \<open>None\<close>.
\<close>

datatype ('c, 'e, 'd) action =
    Call 'c "'d option"
  | Settle nat "'e + 'd option"
  | Timer nat
  | Tick nat

fun deliver ::
  "('c, 'e, 'd) action \<Rightarrow> ('w, 'e) server \<times> ('c, 'd) call_state list
     \<Rightarrow> (('w, 'e) server \<times> ('c, 'd) call_state list) option" where
  "deliver (Call config fallback) (st, calls) =
     (case begin_call config fallback st of (call, st') \<Rightarrow> Some (st', calls @ [call]))"
| "deliver (Settle pid outcome) (st, calls) =
     (if pid < length calls then
        (case calls ! pid of
           Awaiting config fallback retries \<Rightarrow>
             (case on_settled (calls ! pid) outcome st of
                (call, st') \<Rightarrow> Some (st', calls[pid := call]))
         | Sleeping config fallback retries since \<Rightarrow> None
         | Finished v \<Rightarrow> None)
      else None)"
| "deliver (Timer pid) (st, calls) =
     (if pid < length calls then
        (case calls ! pid of
           Awaiting config fallback retries \<Rightarrow> None
         | Sleeping config fallback retries since \<Rightarrow>
             (if since + 500 \<le> date_now st then
                (case on_timer (calls ! pid) st of
                   (call, st') \<Rightarrow> Some (st', calls[pid := call]))
              else None)
         | Finished v \<Rightarrow> None)
      else None)"
| "deliver (Tick ms) (st, calls) = Some (elapse ms st, calls)"

fun exec ::
  "('c, 'e, 'd) action list \<Rightarrow> ('w, 'e) server \<times> ('c, 'd) call_state list
     \<Rightarrow> (('w, 'e) server \<times> ('c, 'd) call_state list) option" where
  "exec [] sys = Some sys"
| "exec (a # as) sys = (case deliver a sys of None \<Rightarrow> None | Some sys' \<Rightarrow> exec as sys')"

fun finished :: "('c, 'd) call_state \<Rightarrow> bool" where
  "finished (Finished v) = True"
| "finished call = False"

text \<open>
  One call run to its end with nothing in between: each request is answered by
  \<open>request\<close> in the current world, each timer takes its 500 ms.
\<close>

fun remaining :: "('c, 'd) call_state \<Rightarrow> nat" where
  "remaining (Finished v) = 0"
| "remaining (Awaiting config fallback retries) = 2 * nat retries + 2"
| "remaining (Sleeping config fallback retries since) =
     (if 0 < retries then 2 * nat retries + 1 else 3)"

function drive ::
  "('c \<Rightarrow> ('w, 'e, 'd option) async_fn) \<Rightarrow> ('c, 'd) call_state \<Rightarrow> ('w, 'e) server
     \<Rightarrow> 'd option \<times> ('w, 'e) server" where
  "drive request (Finished v) st = (v, st)"
| "drive request (Awaiting config fallback retries) st =
     (let called = request config (net st);
          st1 = elapse (snd (fst called)) (st\<lparr>net := snd called\<rparr>)
      in case on_settled (Awaiting config fallback retries) (fst (fst called)) st1 of
           (call, st2) \<Rightarrow> drive request call st2)"
| "drive request (Sleeping config fallback retries since) st =
     (case on_timer (Sleeping config fallback retries since) (elapse 500 st) of
        (call, st') \<Rightarrow> drive request call st')"
  by pat_completeness auto
termination
proof (relation "measure (\<lambda>(request, call, st). remaining call)", goal_cases)
  case 1
  show ?case by simp
next
  case (2 request config fallback retries st called st1 call st2)
  then show ?case
    by (cases "fst (fst called)") (auto split: if_splits)
next
  case (3 request config fallback retries since st call st')
  then show ?case by auto
qed

declare drive.simps [simp del]

section \<open>Sample runners, servers and schedules\<close>

text \<open>
  Runners built by the constructor with its defaults. The world counts the
  invocations of the handler. \<open>serving p\<close> returns the promise \<open>p\<close> on every
  invocation; \<open>flaky e k\<close> rejects with \<open>e\<close> on its first \<open>k\<close> invocations and
  fulfils afterwards.
\<close>

definition machine0 :: "(nat, nat, nat) machine" where
  "machine0 = \<lparr> world = 0, clock = 0, trace = [] \<rparr>"

definition serving :: "(nat, string) promise \<Rightarrow> (nat, nat, nat, string) job_runner" where
  "serving p =
     constructor \<lparr> opt_jobName = ''sync'',
       opt_handler = (\<lambda>payload w. (Returns 0 p, Suc w)),
       opt_maxRetries = None, opt_backoffMs = None, opt_timeoutMs = None \<rparr>"

definition flaky :: "nat thrown \<Rightarrow> nat \<Rightarrow> (nat, nat, nat, string) job_runner" where
  "flaky e k =
     constructor \<lparr> opt_jobName = ''sync'',
       opt_handler =
         (\<lambda>payload w. (Returns 0 (if w < k then Rejects 10 e else Fulfils 20 ''done''), Suc w)),
       opt_maxRetries = None, opt_backoffMs = None, opt_timeoutMs = None \<rparr>"

text \<open>A handler that runs for 9 seconds and then returns its result.\<close>

definition busy :: "(nat, nat, nat, string) job_runner" where
  "busy =
     constructor \<lparr> opt_jobName = ''sync'',
       opt_handler = (\<lambda>payload w. (Returns 9000 (Fulfils 0 ''done''), Suc w)),
       opt_maxRetries = None, opt_backoffMs = None, opt_timeoutMs = None \<rparr>"

text \<open>
  A dependency that refuses its first \<open>k\<close> requests, the \<open>i\<close>-th with an
  error of \<open>i\<close> letters, each answered after 30 ms, and a server that has just
  started.
\<close>

definition unreliable :: "nat \<Rightarrow> (nat, string, string option) async_fn" where
  "unreliable k w =
     ((if w < k then Inl (replicate (Suc w) CHR ''x'') else Inr (Some ''body''), 30), Suc w)"

definition server0 :: "(nat, 'e) server" where
  "server0 =
     \<lparr> dependencyFailures = 0, circuitOpenUntil = None, date_now = 0, net = 0, journal = [] \<rparr>"

text \<open>
  Six calls start together. Five of them fail three times each, with the pauses in
  between, and cross the threshold at time 1000; the first request of the sixth is
  refused at time 4000 only, and its timer is due at time 4500.
\<close>

definition overlap_schedule :: "(string, string, nat) action list" where
  "overlap_schedule =
     [Call ''/feed'' None, Call ''/feed'' None, Call ''/feed'' None,
      Call ''/feed'' None, Call ''/feed'' None, Call ''/feed'' None,
      Settle 0 (Inl ''refused''), Settle 1 (Inl ''refused''), Settle 2 (Inl ''refused''),
      Settle 3 (Inl ''refused''), Settle 4 (Inl ''refused''),
      Tick 500,
      Timer 0, Timer 1, Timer 2, Timer 3, Timer 4,
      Settle 0 (Inl ''refused''), Settle 1 (Inl ''refused''), Settle 2 (Inl ''refused''),
      Settle 3 (Inl ''refused''), Settle 4 (Inl ''refused''),
      Tick 500,
      Timer 0, Timer 1, Timer 2, Timer 3, Timer 4,
      Settle 0 (Inl ''refused''), Settle 1 (Inl ''refused''), Settle 2 (Inl ''refused''),
      Settle 3 (Inl ''refused''), Settle 4 (Inl ''refused''),
      Tick 3000,
      Settle 5 (Inl ''refused''),
      Tick 500]"

definition overlap_server :: "(nat, string) server" where
  "overlap_server =
     \<lparr> dependencyFailures = 5, circuitOpenUntil = Some 61000, date_now = 4500, net = 0,
       journal =
         [Invoked, Invoked, Invoked, Invoked, Invoked, Invoked,
          Paused 500, Paused 500, Paused 500, Paused 500, Paused 500,
          Invoked, Invoked, Invoked, Invoked, Invoked,
          Paused 500, Paused 500, Paused 500, Paused 500, Paused 500,
          Invoked, Invoked, Invoked, Invoked, Invoked,
          ErrorDependencyFailure ''refused'', ErrorDependencyFailure ''refused'',
          ErrorDependencyFailure ''refused'', ErrorDependencyFailure ''refused'',
          CriticalCircuitOpened, ErrorDependencyFailure ''refused'',
          Paused 500] \<rparr>"

definition overlap_calls :: "(string, nat) call_state list" where
  "overlap_calls =
     [Finished None, Finished None, Finished None, Finished None, Finished None,
      Sleeping ''/feed'' None 2 4000]"

text \<open>A server with four failures recorded since the last success, at time 1000.\<close>

definition strained :: "(nat, string) server" where
  "strained =
     \<lparr> dependencyFailures = 4, circuitOpenUntil = None, date_now = 1000, net = 0, journal = [] \<rparr>"

text \<open>
  After the crossing at time 1000 two more calls arrive, at times 1000 and 60000,
  and the clock reaches 60999.
\<close>

definition quiet_schedule :: "(string, string, nat) action list" where
  "quiet_schedule = [Call ''/feed'' (Some 2), Tick 59000, Call ''/feed'' None, Tick 999]"

definition quiet_server :: "(nat, string) server" where
  "quiet_server =
     \<lparr> dependencyFailures = 5, circuitOpenUntil = Some 61000, date_now = 60999, net = 0,
       journal = [CriticalCircuitOpened, WarnCircuitOpen, WarnCircuitOpen] \<rparr>"

definition quiet_calls :: "(string, nat) call_state list" where
  "quiet_calls = [Finished (Some 1), Finished (Some 2), Finished None]"

text \<open>The same, with the clock at 61000 in the end.\<close>

definition lapsed_schedule :: "(string, string, nat) action list" where
  "lapsed_schedule = [Call ''/feed'' (Some 2), Tick 59000, Call ''/feed'' None, Tick 1000]"

definition lapsed_server :: "(nat, string) server" where
  "lapsed_server =
     \<lparr> dependencyFailures = 5, circuitOpenUntil = Some 61000, date_now = 61000, net = 0,
       journal = [CriticalCircuitOpened, WarnCircuitOpen, WarnCircuitOpen] \<rparr>"

section \<open>Properties of the job executor\<close>

subsection \<open>Observations distribute over the trace\<close>

lemma handler_calls_append: "handler_calls (xs @ ys) = handler_calls xs + handler_calls ys"
  by (induction xs rule: handler_calls.induct) simp_all

lemma dead_letters_append: "dead_letters (xs @ ys) = dead_letters xs @ dead_letters ys"
  by (induction xs rule: dead_letters.induct) simp_all

lemma delays_append: "delays (xs @ ys) = delays xs @ delays ys"
  by (induction xs rule: delays.induct) simp_all

subsection \<open>One pass through the loop body\<close>

text \<open>
  The four ways an attempt ends, with the machine it leaves: success, a failure
  with attempts left, a failure with none left, and a failure with \<open>null\<close>
  or \<open>undefined\<close>, whose \<open>message\<close> cannot be read.
\<close>

lemma run_attempt_success:
  assumes "attempt_result jr payload (world st) = (Inr r, t)"
  shows "run_attempt jr payload a st =
    (Return r, \<lparr> world = snd (handler jr payload (world st)), clock = clock st + t,
        trace = trace st @ [LogStart (jobName jr) a, HandlerCalled payload, LogSuccess (jobName jr) a] \<rparr>)"
  using assms
  by (auto simp: attempt_result_def run_attempt_def runWithTimeout_def emit_def advance_def Let_def
      split: invocation.splits prod.splits sum.splits)

lemma run_attempt_retry:
  assumes "attempt_result jr payload (world st) = (Inl e, t)" "get_message e = Inr m" "a \<le> maxRetries jr"
  shows "run_attempt jr payload a st =
    (Continue, \<lparr> world = snd (handler jr payload (world st)),
        clock = clock st + t + timer_delay (js_times (backoffMs jr) a),
        trace = trace st @ [LogStart (jobName jr) a, HandlerCalled payload, LogFailed (jobName jr) a m payload,
          LogRetry (jobName jr) (js_times (backoffMs jr) a),
          Slept (timer_delay (js_times (backoffMs jr) a))] \<rparr>)"
  using assms
  by (auto simp: attempt_result_def run_attempt_def runWithTimeout_def emit_def advance_def Let_def backoff_def
      split: invocation.splits prod.splits sum.splits)

lemma run_attempt_exhausted:
  assumes "attempt_result jr payload (world st) = (Inl e, t)" "get_message e = Inr m" "maxRetries jr < a"
  shows "run_attempt jr payload a st =
    (Throw e, \<lparr> world = snd (handler jr payload (world st)), clock = clock st + t,
        trace = trace st @ [LogStart (jobName jr) a, HandlerCalled payload, LogFailed (jobName jr) a m payload,
          DeadLetterCalled e payload, LogDeadLetter (jobName jr) m payload] \<rparr>)"
  using assms
  by (auto simp: attempt_result_def run_attempt_def runWithTimeout_def emit_def advance_def Let_def
       moveToDeadLetterQueue_def
      split: invocation.splits prod.splits sum.splits)

lemma run_attempt_nullish:
  assumes "attempt_result jr payload (world st) = (Inl Nullish, t)"
  shows "run_attempt jr payload a st =
    (Throw TypeError, \<lparr> world = snd (handler jr payload (world st)), clock = clock st + t,
        trace = trace st @ [LogStart (jobName jr) a, HandlerCalled payload] \<rparr>)"
  using assms
  by (auto simp: attempt_result_def run_attempt_def runWithTimeout_def emit_def advance_def Let_def
      split: invocation.splits prod.splits sum.splits)

subsection \<open>The loop\<close>

text \<open>
  The loop from any value of \<open>attempt\<close>: \<open>k\<close> failures followed by a
  success, and failures up to the last attempt allowed. The failures are values
  whose \<open>message\<close> can be read.
\<close>

lemma run_loop_step:
  assumes "attempt \<le> maxRetries jr"
  shows "run_loop jr payload attempt st =
    (case run_attempt jr payload (attempt + 1) st of
       (Return result, st') \<Rightarrow> (Inr (Some result), st')
     | (Throw error, st') \<Rightarrow> (Inl error, st')
     | (Continue, st') \<Rightarrow> run_loop jr payload (attempt + 1) st')"
  using assms by (subst run_loop.simps) simp

lemma not_nullish_message: "e \<noteq> Nullish \<Longrightarrow> \<exists>m. get_message e = Inr m"
  by (cases e) simp_all

lemma run_loop_retry_then_success:
  assumes "\<forall>i<k. \<exists>e t. attempt_result jr payload (world_before jr payload (world st) i) = (Inl e, t) \<and> e \<noteq> Nullish"
    and "attempt_result jr payload (world_before jr payload (world st) k) = (Inr r, t)"
    and "a + int k \<le> maxRetries jr"
  shows "fst (run_loop jr payload a st) = Inr (Some r)
    \<and> world (snd (run_loop jr payload a st)) = world_before jr payload (world st) (Suc k)
    \<and> handler_calls (trace (snd (run_loop jr payload a st))) = handler_calls (trace st) + Suc k
    \<and> dead_letters (trace (snd (run_loop jr payload a st))) = dead_letters (trace st)
    \<and> delays (trace (snd (run_loop jr payload a st)))
        = delays (trace st) @ map (\<lambda>i. timer_delay (js_times (backoffMs jr) (a + 1 + int i))) [0..<k]"
  using assms
proof (induction k arbitrary: a st t)
  case 0
  then have ok: "a \<le> maxRetries jr" by simp
  from 0 have "attempt_result jr payload (world st) = (Inr r, t)" by simp
  from run_attempt_success [OF this, of "a + 1"]
  show ?case
    by (simp add: run_loop_step [OF ok] handler_calls_append dead_letters_append delays_append)
next
  case (Suc k)
  from Suc.prems(1) obtain e t0 where
    fails: "attempt_result jr payload (world st) = (Inl e, t0)" and "e \<noteq> Nullish"
    by fastforce
  then obtain m where m: "get_message e = Inr m"
    using not_nullish_message by blast
  from Suc.prems(3) have le: "a + 1 \<le> maxRetries jr" and le': "a \<le> maxRetries jr"
    and rest: "(a + 1) + int k \<le> maxRetries jr" by simp_all
  define st1 where "st1 = snd (run_attempt jr payload (a + 1) st)"
  have step: "run_attempt jr payload (a + 1) st = (Continue, st1)"
    and w1: "world st1 = snd (handler jr payload (world st))"
    and tr1: "trace st1 = trace st @ [LogStart (jobName jr) (a + 1), HandlerCalled payload,
        LogFailed (jobName jr) (a + 1) m payload,
        LogRetry (jobName jr) (js_times (backoffMs jr) (a + 1)),
        Slept (timer_delay (js_times (backoffMs jr) (a + 1)))]"
    using run_attempt_retry [OF fails m le] by (simp_all add: st1_def)
  have loop: "run_loop jr payload a st = run_loop jr payload (a + 1) st1"
    using step by (simp add: run_loop_step [OF le'])
  have p1: "\<forall>i<k. \<exists>e t. attempt_result jr payload (world_before jr payload (world st1) i) = (Inl e, t) \<and> e \<noteq> Nullish"
  proof (intro allI impI)
    fix i assume "i < k"
    then have "Suc i < Suc k" by simp
    with Suc.prems(1) show "\<exists>e t. attempt_result jr payload (world_before jr payload (world st1) i) = (Inl e, t) \<and> e \<noteq> Nullish"
      unfolding w1 by (metis world_before.simps(2))
  qed
  have p2: "attempt_result jr payload (world_before jr payload (world st1) k) = (Inr r, t)"
    using Suc.prems(2) by (simp add: w1)
  from Suc.IH [OF p1 p2 rest] show ?case
    unfolding loop
    by (simp add: w1 tr1 handler_calls_append dead_letters_append delays_append map_upt_Suc
        add_ac del: upt_Suc)
qed

lemma run_loop_all_fail:
  assumes "\<forall>i\<le>k. \<exists>e t. attempt_result jr payload (world_before jr payload (world st) i) = (Inl e, t) \<and> e \<noteq> Nullish"
    and "fst (attempt_result jr payload (world_before jr payload (world st) k)) = Inl e"
    and "a + int k = maxRetries jr"
  shows "fst (run_loop jr payload a st) = Inl e
    \<and> world (snd (run_loop jr payload a st)) = world_before jr payload (world st) (Suc k)
    \<and> handler_calls (trace (snd (run_loop jr payload a st))) = handler_calls (trace st) + Suc k
    \<and> dead_letters (trace (snd (run_loop jr payload a st))) = dead_letters (trace st) @ [(e, payload)]
    \<and> delays (trace (snd (run_loop jr payload a st)))
        = delays (trace st) @ map (\<lambda>i. timer_delay (js_times (backoffMs jr) (a + 1 + int i))) [0..<k]"
  using assms
proof (induction k arbitrary: a st)
  case 0
  then have ok: "a \<le> maxRetries jr" and last: "maxRetries jr < a + 1" by simp_all
  from 0 obtain t where fails: "attempt_result jr payload (world st) = (Inl e, t)" and "e \<noteq> Nullish"
    by fastforce
  then obtain m where m: "get_message e = Inr m"
    using not_nullish_message by blast
  from run_attempt_exhausted [OF fails m last]
  show ?case
    by (simp add: run_loop_step [OF ok] handler_calls_append dead_letters_append delays_append)
next
  case (Suc k)
  from Suc.prems(1) obtain e0 t0 where
    fails: "attempt_result jr payload (world st) = (Inl e0, t0)" and "e0 \<noteq> Nullish"
    by fastforce
  then obtain m where m: "get_message e0 = Inr m"
    using not_nullish_message by blast
  from Suc.prems(3) have le: "a + 1 \<le> maxRetries jr" and le': "a \<le> maxRetries jr"
    and rest: "(a + 1) + int k = maxRetries jr" by simp_all
  define st1 where "st1 = snd (run_attempt jr payload (a + 1) st)"
  have step: "run_attempt jr payload (a + 1) st = (Continue, st1)"
    and w1: "world st1 = snd (handler jr payload (world st))"
    and tr1: "trace st1 = trace st @ [LogStart (jobName jr) (a + 1), HandlerCalled payload,
        LogFailed (jobName jr) (a + 1) m payload,
        LogRetry (jobName jr) (js_times (backoffMs jr) (a + 1)),
        Slept (timer_delay (js_times (backoffMs jr) (a + 1)))]"
    using run_attempt_retry [OF fails m le] by (simp_all add: st1_def)
  have loop: "run_loop jr payload a st = run_loop jr payload (a + 1) st1"
    using step by (simp add: run_loop_step [OF le'])
  have p1: "\<forall>i\<le>k. \<exists>e t. attempt_result jr payload (world_before jr payload (world st1) i) = (Inl e, t) \<and> e \<noteq> Nullish"
  proof (intro allI impI)
    fix i assume "i \<le> k"
    then have "Suc i \<le> Suc k" by simp
    with Suc.prems(1) show "\<exists>e t. attempt_result jr payload (world_before jr payload (world st1) i) = (Inl e, t) \<and> e \<noteq> Nullish"
      unfolding w1 by (metis world_before.simps(2))
  qed
  have p2: "fst (attempt_result jr payload (world_before jr payload (world st1) k)) = Inl e"
    using Suc.prems(2) by (simp add: w1)
  from Suc.IH [OF p1 p2 rest] show ?case
    unfolding loop
    by (simp add: w1 tr1 handler_calls_append dead_letters_append delays_append map_upt_Suc
        add_ac del: upt_Suc)
qed

subsection \<open>Timers within the range of setTimeout\<close>

lemma timer_in_range:
  assumes "1 \<le> b * a" and "b * a \<le> 2147483647"
  shows "js_times b a = Some (b * a)"
    and "timer_delay (js_times b a) = nat (b * a)"
    and "timer_delay (Some (b * a)) = nat (b * a)"
  using assms by (simp_all add: js_times_def)

subsection \<open>What a run adds to the delays\<close>

lemma run_attempt_delays_extend:
  "\<exists>rest. delays (trace (snd (run_attempt jr payload a st))) = delays (trace st) @ rest"
  by (auto simp: run_attempt_def runWithTimeout_def backoff_def moveToDeadLetterQueue_def
      emit_def advance_def Let_def delays_append
      split: invocation.splits prod.splits sum.splits)

lemma run_loop_delays_extend:
  "\<exists>rest. delays (trace (snd (run_loop jr payload a st))) = delays (trace st) @ rest"
proof (induction jr payload a st rule: run_loop.induct)
  case (1 jr payload attempt st)
  show ?case
  proof (cases "attempt \<le> maxRetries jr")
    case False
    then show ?thesis by (subst run_loop.simps) simp
  next
    case True
    obtain x st' where pass: "run_attempt jr payload (attempt + 1) st = (x, st')"
      by (cases "run_attempt jr payload (attempt + 1) st")
    from run_attempt_delays_extend [of jr payload "attempt + 1" st] pass
    obtain r1 where r1: "delays (trace st') = delays (trace st) @ r1" by auto
    show ?thesis
    proof (cases x)
      case (Return result)
      with pass r1 show ?thesis by (simp add: run_loop_step [OF True])
    next
      case (Throw error)
      with pass r1 show ?thesis by (simp add: run_loop_step [OF True])
    next
      case Continue
      from "1.IH" [OF True pass [symmetric] Continue]
      obtain r2 where "delays (trace (snd (run_loop jr payload (attempt + 1) st')))
          = delays (trace st') @ r2" by auto
      with pass r1 Continue show ?thesis by (simp add: run_loop_step [OF True])
    qed
  qed
qed

lemma run_loop_after_failures:
  assumes "\<forall>i<k. \<exists>e t. attempt_result jr payload (world_before jr payload (world st) i) = (Inl e, t) \<and> e \<noteq> Nullish"
    and "a + int k \<le> maxRetries jr"
  shows "\<exists>st'. run_loop jr payload a st = run_loop jr payload (a + int k) st'
    \<and> world st' = world_before jr payload (world st) k
    \<and> delays (trace st')
        = delays (trace st) @ map (\<lambda>i. timer_delay (js_times (backoffMs jr) (a + 1 + int i))) [0..<k]"
  using assms
proof (induction k arbitrary: a st)
  case 0
  show ?case by (rule exI [of _ st]) simp
next
  case (Suc k)
  from Suc.prems(1) obtain e t0 where
    fails: "attempt_result jr payload (world st) = (Inl e, t0)" and "e \<noteq> Nullish"
    by fastforce
  then obtain m where m: "get_message e = Inr m"
    using not_nullish_message by blast
  from Suc.prems(2) have le: "a + 1 \<le> maxRetries jr" and le': "a \<le> maxRetries jr"
    and rest: "(a + 1) + int k \<le> maxRetries jr" by simp_all
  define st1 where "st1 = snd (run_attempt jr payload (a + 1) st)"
  have pass: "run_attempt jr payload (a + 1) st = (Continue, st1)"
    and w1: "world st1 = snd (handler jr payload (world st))"
    and tr1: "trace st1 = trace st @ [LogStart (jobName jr) (a + 1), HandlerCalled payload,
        LogFailed (jobName jr) (a + 1) m payload,
        LogRetry (jobName jr) (js_times (backoffMs jr) (a + 1)),
        Slept (timer_delay (js_times (backoffMs jr) (a + 1)))]"
    using run_attempt_retry [OF fails m le] by (simp_all add: st1_def)
  have loop: "run_loop jr payload a st = run_loop jr payload (a + 1) st1"
    using pass by (simp add: run_loop_step [OF le'])
  have p1: "\<forall>i<k. \<exists>e t. attempt_result jr payload (world_before jr payload (world st1) i) = (Inl e, t) \<and> e \<noteq> Nullish"
  proof (intro allI impI)
    fix i assume "i < k"
    then have "Suc i < Suc k" by simp
    with Suc.prems(1) show "\<exists>e t. attempt_result jr payload (world_before jr payload (world st1) i) = (Inl e, t) \<and> e \<noteq> Nullish"
      unfolding w1 by (metis world_before.simps(2))
  qed
  from Suc.IH [OF p1 rest] obtain st' where
    c1: "run_loop jr payload (a + 1) st1 = run_loop jr payload (a + 1 + int k) st'"
    and c2: "world st' = world_before jr payload (world st1) k"
    and c3: "delays (trace st') = delays (trace st1)
        @ map (\<lambda>i. timer_delay (js_times (backoffMs jr) (a + 1 + 1 + int i))) [0..<k]"
    by blast
  have "run_loop jr payload a st = run_loop jr payload (a + int (Suc k)) st'"
    using loop c1 by (simp add: add_ac)
  moreover have "world st' = world_before jr payload (world st) (Suc k)"
    using c2 by (simp add: w1)
  moreover have "delays (trace st') = delays (trace st)
      @ map (\<lambda>i. timer_delay (js_times (backoffMs jr) (a + 1 + int i))) [0..<Suc k]"
    using c3 by (simp add: tr1 delays_append map_upt_Suc add_ac del: upt_Suc)
  ultimately show ?case by blast
qed

section \<open>The claims about the job executor\<close>

lemmas machine_ops = emit_def advance_def runWithTimeout_def backoff_def js_times_def
  moveToDeadLetterQueue_def run_attempt_def Let_def

lemmas sample_runners = serving_def flaky_def busy_def constructor_def machine0_def

text \<open>
  Claim C8. A runner constructed without explicit values has \<open>maxRetries = 3\<close>,
  \<open>backoffMs = 2000\<close> and \<open>timeoutMs = 5000\<close>. \<open>run\<close> called without an
  argument is \<open>run\<close> called with the empty payload \<open>{}\<close>, and it is the
  empty payload that the handler, the log lines and the dead-letter hook receive:
  when the first invocation \<open>handler({})\<close> fulfils before the timer fires, its
  result is returned; when it fails and no retry is allowed, the failure is
  logged, dead-lettered and thrown with \<open>{}\<close>.
\<close>

theorem constructor_and_run_defaults:
  "maxRetries (constructor \<lparr> opt_jobName = name, opt_handler = h, opt_maxRetries = None,
      opt_backoffMs = None, opt_timeoutMs = None \<rparr>) = 3
   \<and> backoffMs (constructor \<lparr> opt_jobName = name, opt_handler = h, opt_maxRetries = None,
      opt_backoffMs = None, opt_timeoutMs = None \<rparr>) = 2000
   \<and> timeoutMs (constructor \<lparr> opt_jobName = name, opt_handler = h, opt_maxRetries = None,
      opt_backoffMs = None, opt_timeoutMs = None \<rparr>) = 5000
   \<and> run jr None st = run jr (Some []) st
   \<and> (0 \<le> maxRetries jr \<and> fst (handler jr [] (world st)) = Returns b (Fulfils t r)
        \<and> t \<le> timer_delay (Some (timeoutMs jr)) \<longrightarrow>
      run jr None st =
        (Inr (Some r),
         \<lparr> world = snd (handler jr [] (world st)), clock = clock st + b + t,
           trace = trace st @ [LogStart (jobName jr) 1, HandlerCalled [], LogSuccess (jobName jr) 1] \<rparr>))
   \<and> (maxRetries jr = 0 \<and> attempt_result jr [] (world st) = (Inl e, d) \<and> get_message e = Inr m \<longrightarrow>
      run jr None st =
        (Inl e,
         \<lparr> world = snd (handler jr [] (world st)), clock = clock st + d,
           trace = trace st @ [LogStart (jobName jr) 1, HandlerCalled [],
             LogFailed (jobName jr) 1 m [], DeadLetterCalled e [],
             LogDeadLetter (jobName jr) m []] \<rparr>))"
proof -
  have fulfilled: "run jr None st =
        (Inr (Some r),
         \<lparr> world = snd (handler jr [] (world st)), clock = clock st + b + t,
           trace = trace st @ [LogStart (jobName jr) 1, HandlerCalled [], LogSuccess (jobName jr) 1] \<rparr>)"
    if "0 \<le> maxRetries jr" "fst (handler jr [] (world st)) = Returns b (Fulfils t r)"
      "t \<le> timer_delay (Some (timeoutMs jr))"
  proof -
    from that(2,3) have "attempt_result jr [] (world st) = (Inr r, b + t)"
      by (simp add: attempt_result_def)
    from run_attempt_success [OF this, of 1] that(1) show ?thesis
      by (simp add: run_def run_loop_step)
  qed
  have failed: "run jr None st =
        (Inl e,
         \<lparr> world = snd (handler jr [] (world st)), clock = clock st + d,
           trace = trace st @ [LogStart (jobName jr) 1, HandlerCalled [],
             LogFailed (jobName jr) 1 m [], DeadLetterCalled e [],
             LogDeadLetter (jobName jr) m []] \<rparr>)"
    if "maxRetries jr = 0" "attempt_result jr [] (world st) = (Inl e, d)" "get_message e = Inr m"
  proof -
    from that(1) have "maxRetries jr < 1" by simp
    from run_attempt_exhausted [OF that(2,3) this] that(1) show ?thesis
      by (simp add: run_def run_loop_step)
  qed
  from fulfilled failed show ?thesis
    by (simp add: constructor_def run_def)
qed

theorem constructor_and_run_defaults_witness:
  "0 \<le> maxRetries (serving (Fulfils 20 ''done''))
   \<and> maxRetries (serving (Fulfils 20 ''done'')) = 3
   \<and> backoffMs (serving (Fulfils 20 ''done'')) = 2000
   \<and> timeoutMs (serving (Fulfils 20 ''done'')) = 5000
   \<and> fst (handler (serving (Fulfils 20 ''done'')) [] (world machine0)) = Returns 0 (Fulfils 20 ''done'')
   \<and> 20 \<le> timer_delay (Some (timeoutMs (serving (Fulfils 20 ''done''))))
   \<and> run (serving (Fulfils 20 ''done'')) None machine0
       = (Inr (Some ''done''),
          \<lparr> world = 1, clock = 20,
            trace = [LogStart ''sync'' 1, HandlerCalled [], LogSuccess ''sync'' 1] \<rparr>)
   \<and> maxRetries ((serving (Rejects 10 (Thrown (Some ''boom'') 7)))\<lparr>maxRetries := 0\<rparr>) = 0
   \<and> attempt_result ((serving (Rejects 10 (Thrown (Some ''boom'') 7)))\<lparr>maxRetries := 0\<rparr>) []
        (world machine0) = (Inl (Thrown (Some ''boom'') 7), 10)
   \<and> get_message (Thrown (Some ''boom'') (7::nat)) = Inr (Some ''boom'')
   \<and> run ((serving (Rejects 10 (Thrown (Some ''boom'') 7)))\<lparr>maxRetries := 0\<rparr>) None machine0
       = (Inl (Thrown (Some ''boom'') 7),
          \<lparr> world = 1, clock = 10,
            trace = [LogStart ''sync'' 1, HandlerCalled [],
              LogFailed ''sync'' 1 (Some ''boom'') [], DeadLetterCalled (Thrown (Some ''boom'') 7) [],
              LogDeadLetter ''sync'' (Some ''boom'') []] \<rparr>)"
  using constructor_and_run_defaults
    [where jr = "serving (Fulfils 20 ''done'')" and st = machine0 and b = 0 and t = 20
       and r = "''done''"]
    constructor_and_run_defaults
    [where jr = "(serving (Rejects 10 (Thrown (Some ''boom'') 7)))\<lparr>maxRetries := 0\<rparr>"
       and st = machine0 and e = "Thrown (Some ''boom'') 7" and d = 10 and m = "Some ''boom''"]
  by (simp add: sample_runners attempt_result_def run_def)

text \<open>
  Claim C9. With \<open>maxRetries < 0\<close> the guard of the loop fails before the first
  attempt: \<open>run\<close> resolves with \<open>undefined\<close> and leaves the machine as it
  was, so the handler and the dead-letter hook are not invoked and nothing is
  logged or thrown.
\<close>

theorem negative_retries_no_attempt:
  assumes "maxRetries jr < 0"
  shows "run jr arg st = (Inr None, st)"
  unfolding run_def using assms by (subst run_loop.simps) simp

theorem negative_retries_no_attempt_witness:
  "maxRetries ((serving (Rejects 10 (Thrown None 0)))\<lparr>maxRetries := - 3\<rparr>) < 0
   \<and> run ((serving (Rejects 10 (Thrown None 0)))\<lparr>maxRetries := - 3\<rparr>) None machine0
       = (Inr None, machine0)"
  using negative_retries_no_attempt
    [of "(serving (Rejects 10 (Thrown None 0)))\<lparr>maxRetries := - 3\<rparr>" None machine0]
  by simp

text \<open>
  Claim C3 as stated fails for \<open>backoffMs = 2147483648\<close>: the first attempt
  fails with an \<open>Error\<close> and is retried, \<open>backoffMs * 1\<close> is above
  \<open>2^31 - 1\<close>, and the timer that \<open>_backoff\<close> awaits runs for 1 millisecond.
\<close>

theorem backoff_beyond_timer_range:
  "backoffMs ((serving (Rejects 10 (Thrown (Some ''boom'') 7)))\<lparr>backoffMs := 2147483648\<rparr>) * 1
     = 2147483648
   \<and> fst (run_attempt ((serving (Rejects 10 (Thrown (Some ''boom'') 7)))\<lparr>backoffMs := 2147483648\<rparr>)
        [] 1 machine0) = Continue
   \<and> delays (trace (snd (run_attempt
        ((serving (Rejects 10 (Thrown (Some ''boom'') 7)))\<lparr>backoffMs := 2147483648\<rparr>)
        [] 1 machine0))) = [1]
   \<and> clock (snd (run_attempt
        ((serving (Rejects 10 (Thrown (Some ''boom'') 7)))\<lparr>backoffMs := 2147483648\<rparr>)
        [] 1 machine0)) = 11
   \<and> clock (backoff ((serving (Rejects 10 (Thrown (Some ''boom'') 7)))\<lparr>backoffMs := 2147483648\<rparr>)
        1 machine0) = 1"
  by (simp add: sample_runners machine_ops js_times_def)

text \<open>
  Claim C3, as amended. Attempts are numbered from 1. When the first \<open>k\<close>
  attempts of a run fail with an error whose \<open>message\<close> can be read and leave
  attempts to make, and each \<open>backoffMs * i\<close> for \<open>i = 1, ..., k\<close> lies
  between 1 and \<open>2^31 - 1\<close>, then the first \<open>k\<close> backoff timers of the run
  take \<open>backoffMs * 1, ..., backoffMs * k\<close> milliseconds: the delay after
  attempt \<open>i\<close> is \<open>backoffMs * i\<close>, linear in \<open>i\<close>. A pass through the loop
  body for such an attempt \<open>a\<close> calls the handler, logs the failure, logs the
  retry with \<open>backoffMs * a\<close>, waits that long and goes on to the next
  attempt.
\<close>

theorem backoff_after_failed_attempt:
  assumes "int k \<le> maxRetries jr"
    and "\<forall>i<k. \<exists>e t.
           attempt_result jr payload (world_before jr payload (world st) i) = (Inl e, t) \<and> e \<noteq> Nullish"
    and "\<forall>i<k. 1 \<le> backoffMs jr * int (Suc i) \<and> backoffMs jr * int (Suc i) \<le> 2147483647"
  shows "(\<exists>rest. delays (trace (snd (run jr (Some payload) st)))
            = delays (trace st) @ map (\<lambda>i. nat (backoffMs jr * int i)) [1..<Suc k] @ rest)
   \<and> (\<forall>e t m a s.
        attempt_result jr payload (world s) = (Inl e, t) \<and> get_message e = Inr m
        \<and> a \<le> maxRetries jr \<and> 1 \<le> backoffMs jr * a \<and> backoffMs jr * a \<le> 2147483647 \<longrightarrow>
        run_attempt jr payload a s =
          (Continue,
           \<lparr> world = snd (handler jr payload (world s)),
             clock = clock s + t + nat (backoffMs jr * a),
             trace = trace s @ [LogStart (jobName jr) a, HandlerCalled payload,
               LogFailed (jobName jr) a m payload,
               LogRetry (jobName jr) (Some (backoffMs jr * a)),
               Slept (nat (backoffMs jr * a))] \<rparr>))"
proof -
  from run_loop_after_failures [OF assms(2), of 0] assms(1) obtain st' where
    cont: "run_loop jr payload 0 st = run_loop jr payload (int k) st'"
    and first: "delays (trace st')
        = delays (trace st) @ map (\<lambda>i. timer_delay (js_times (backoffMs jr) (0 + 1 + int i))) [0..<k]"
    by auto
  have "timer_delay (js_times (backoffMs jr) (0 + 1 + int i)) = nat (backoffMs jr * int (Suc i))"
    if "i < k" for i
    using assms(3) that timer_in_range(2) [of "backoffMs jr" "int (Suc i)"]
    by (simp add: add.commute)
  then have "map (\<lambda>i. timer_delay (js_times (backoffMs jr) (0 + 1 + int i))) [0..<k]
      = map (\<lambda>i. nat (backoffMs jr * int (Suc i))) [0..<k]"
    by simp
  also have "\<dots> = map (\<lambda>i. nat (backoffMs jr * int i)) [1..<Suc k]"
    by (simp add: map_Suc_upt [symmetric] del: upt_Suc)
  finally have shape: "delays (trace st')
      = delays (trace st) @ map (\<lambda>i. nat (backoffMs jr * int i)) [1..<Suc k]"
    using first by simp
  from run_loop_delays_extend [of jr payload "int k" st'] obtain rest where
    "delays (trace (snd (run_loop jr payload (int k) st'))) = delays (trace st') @ rest"
    by blast
  then have run_level: "\<exists>rest. delays (trace (snd (run jr (Some payload) st)))
      = delays (trace st) @ map (\<lambda>i. nat (backoffMs jr * int i)) [1..<Suc k] @ rest"
    by (simp add: run_def cont shape)
  have pass: "run_attempt jr payload a s =
          (Continue,
           \<lparr> world = snd (handler jr payload (world s)),
             clock = clock s + t + nat (backoffMs jr * a),
             trace = trace s @ [LogStart (jobName jr) a, HandlerCalled payload,
               LogFailed (jobName jr) a m payload,
               LogRetry (jobName jr) (Some (backoffMs jr * a)),
               Slept (nat (backoffMs jr * a))] \<rparr>)"
    if "attempt_result jr payload (world s) = (Inl e, t)" "get_message e = Inr m"
      "a \<le> maxRetries jr" "1 \<le> backoffMs jr * a" "backoffMs jr * a \<le> 2147483647"
    for e t m a s
    using run_attempt_retry [OF that(1,2,3)] timer_in_range [OF that(4,5)] by simp
  from run_level pass show ?thesis by blast
qed

theorem backoff_after_failed_attempt_witness:
  "int 2 \<le> maxRetries (flaky (Thrown (Some ''boom'') 7) 2)
   \<and> attempt_result (flaky (Thrown (Some ''boom'') 7) 2) []
        (world_before (flaky (Thrown (Some ''boom'') 7) 2) [] (world machine0) 0)
       = (Inl (Thrown (Some ''boom'') 7), 10)
   \<and> attempt_result (flaky (Thrown (Some ''boom'') 7) 2) []
        (world_before (flaky (Thrown (Some ''boom'') 7) 2) [] (world machine0) 1)
       = (Inl (Thrown (Some ''boom'') 7), 10)
   \<and> 1 \<le> backoffMs (flaky (Thrown (Some ''boom'') 7) 2) * 1
   \<and> backoffMs (flaky (Thrown (Some ''boom'') 7) 2) * 2 \<le> 2147483647
   \<and> delays (trace (snd (run (flaky (Thrown (Some ''boom'') 7) 2) (Some []) machine0)))
       = [2000, 4000]
   \<and> fst (run (flaky (Thrown (Some ''boom'') 7) 2) (Some []) machine0) = Inr (Some ''done'')
   \<and> get_message (Thrown (Some ''boom'') (7::nat)) = Inr (Some ''boom'')
   \<and> run_attempt (flaky (Thrown (Some ''boom'') 7) 2) [] 2 (machine0\<lparr>world := 1\<rparr>)
       = (Continue,
          \<lparr> world = 2, clock = 4010,
            trace = [LogStart ''sync'' 2, HandlerCalled [], LogFailed ''sync'' 2 (Some ''boom'') [],
              LogRetry ''sync'' (Some 4000), Slept 4000] \<rparr>)"
  using backoff_after_failed_attempt [of 2 "flaky (Thrown (Some ''boom'') 7) 2" "[]" machine0]
  by (simp add: run_def sample_runners run_loop.simps machine_ops attempt_result_def js_times_def
      numeral_2_eq_2)




text \<open>
  Claim C5, as amended. With \<open>maxRetries \<ge> 0\<close>, when the first invocation of
  the handler returns a promise that fulfils with \<open>r\<close> no later than the
  timeout timer fires (the timer that \<open>setTimeout\<close> runs for \<open>timeoutMs\<close>,
  set when the handler has returned), \<open>run\<close> returns \<open>r\<close> unchanged after
  exactly one invocation of the handler, and logs the start and the success of
  attempt 1.
\<close>

theorem first_success_single_attempt:
  assumes "0 \<le> maxRetries jr"
    and "fst (handler jr payload (world st)) = Returns b (Fulfils t r)"
    and "t \<le> timer_delay (Some (timeoutMs jr))"
  shows "run jr (Some payload) st =
      (Inr (Some r),
       \<lparr> world = snd (handler jr payload (world st)), clock = clock st + b + t,
         trace = trace st @ [LogStart (jobName jr) 1, HandlerCalled payload, LogSuccess (jobName jr) 1] \<rparr>)
   \<and> handler_calls (trace (snd (run jr (Some payload) st))) = handler_calls (trace st) + 1"
proof -
  from assms(2,3) have "attempt_result jr payload (world st) = (Inr r, b + t)"
    by (simp add: attempt_result_def)
  from run_attempt_success [OF this, of 1] assms(1) show ?thesis
    by (simp add: run_def run_loop_step handler_calls_append)
qed

theorem first_success_single_attempt_witness:
  "0 \<le> maxRetries (serving (Fulfils 20 ''done''))
   \<and> fst (handler (serving (Fulfils 20 ''done'')) [(''to'', 7)] (world machine0))
       = Returns 0 (Fulfils 20 ''done'')
   \<and> 20 \<le> timer_delay (Some (timeoutMs (serving (Fulfils 20 ''done''))))
   \<and> run (serving (Fulfils 20 ''done'')) (Some [(''to'', 7)]) machine0
       = (Inr (Some ''done''),
          \<lparr> world = 1, clock = 20,
            trace = [LogStart ''sync'' 1, HandlerCalled [(''to'', 7)], LogSuccess ''sync'' 1] \<rparr>)
   \<and> handler_calls (trace (snd (run (serving (Fulfils 20 ''done'')) (Some [(''to'', 7)]) machine0))) = 1"
  using first_success_single_attempt
    [of "serving (Fulfils 20 ''done'')" "[(''to'', 7)]" machine0 0 20 "''done''"]
  by (simp add: sample_runners)

text \<open>
  Claim C5 as stated fails for a runner with \<open>maxRetries = -1\<close>: the operation
  would fulfil at once, but it is never invoked and \<open>run\<close> resolves with
  \<open>undefined\<close>.
\<close>

theorem first_success_never_invoked:
  "fst (handler ((serving (Fulfils 20 ''done''))\<lparr>maxRetries := - 1\<rparr>) [] (world machine0))
     = Returns 0 (Fulfils 20 ''done'')
   \<and> fst (run ((serving (Fulfils 20 ''done''))\<lparr>maxRetries := - 1\<rparr>) None machine0) = Inr None
   \<and> handler_calls (trace (snd (run ((serving (Fulfils 20 ''done''))\<lparr>maxRetries := - 1\<rparr>)
        None machine0))) = 0"
  by (simp add: run_def sample_runners run_loop.simps)

subsection \<open>Runs whose failures are not null or undefined\<close>

text \<open>
  An error other than \<open>null\<close> or \<open>undefined\<close>, whether thrown by the
  handler, rejected by its promise or produced by the race, leads to a retry while
  attempts remain, and to the dead-letter hook and the error itself when none
  does. When all \<open>maxRetries + 1\<close> attempts fail so, the handler is called
  that many times, the hook once with the last error and the payload, and the last
  error is thrown; when \<open>k \<le> maxRetries\<close> attempts fail so and the next
  succeeds, the result is returned after \<open>k + 1\<close> calls and \<open>k\<close> delays,
  the \<open>i\<close>-th being the timer set with \<open>backoffMs * i\<close>.
\<close>

lemma uniform_error_handling:
  assumes "attempt_result jr payload (world st) = (Inl e, t)" and "e \<noteq> Nullish"
  shows "fst (run_attempt jr payload a st) = (if maxRetries jr < a then Throw e else Continue)
   \<and> dead_letters (trace (snd (run_attempt jr payload a st)))
       = dead_letters (trace st) @ (if maxRetries jr < a then [(e, payload)] else [])"
proof -
  from assms(2) obtain m where m: "get_message e = Inr m"
    using not_nullish_message by blast
  show ?thesis
  proof (cases "maxRetries jr < a")
    case True
    from run_attempt_exhausted [OF assms(1) m True] True show ?thesis
      by (simp add: dead_letters_append)
  next
    case False
    then have "a \<le> maxRetries jr" by simp
    from run_attempt_retry [OF assms(1) m this] False show ?thesis
      by (simp add: dead_letters_append)
  qed
qed

lemma run_all_attempts_fail:
  assumes "0 \<le> maxRetries jr"
    and "\<forall>i \<le> nat (maxRetries jr). \<exists>e t.
           attempt_result jr payload (world_before jr payload (world st) i) = (Inl e, t) \<and> e \<noteq> Nullish"
    and "fst (attempt_result jr payload (world_before jr payload (world st) (nat (maxRetries jr)))) = Inl e"
  shows "fst (run jr (Some payload) st) = Inl e
   \<and> handler_calls (trace (snd (run jr (Some payload) st)))
       = handler_calls (trace st) + nat (maxRetries jr) + 1
   \<and> dead_letters (trace (snd (run jr (Some payload) st))) = dead_letters (trace st) @ [(e, payload)]"
  using run_loop_all_fail [OF assms(2,3), of 0] assms(1) by (simp add: run_def)

lemma run_fails_then_succeeds:
  assumes "int k \<le> maxRetries jr"
    and "\<forall>i<k. \<exists>e t.
           attempt_result jr payload (world_before jr payload (world st) i) = (Inl e, t) \<and> e \<noteq> Nullish"
    and "attempt_result jr payload (world_before jr payload (world st) k) = (Inr r, t)"
  shows "fst (run jr (Some payload) st) = Inr (Some r)
   \<and> handler_calls (trace (snd (run jr (Some payload) st))) = handler_calls (trace st) + k + 1
   \<and> delays (trace (snd (run jr (Some payload) st)))
       = delays (trace st) @ map (\<lambda>i. timer_delay (js_times (backoffMs jr) (int i))) [1..<Suc k]"
proof -
  have shift: "map (\<lambda>i. timer_delay (js_times (backoffMs jr) (0 + 1 + int i))) [0..<k]
      = map (\<lambda>i. timer_delay (js_times (backoffMs jr) (int i))) [1..<Suc k]"
    by (simp add: map_Suc_upt [symmetric] add.commute del: upt_Suc)
  from run_loop_retry_then_success [OF assms(2,3), of 0] assms(1) show ?thesis
    by (simp add: run_def shift [simplified])
qed

text \<open>
  Claim C1 at an operation that always rejects with \<open>undefined\<close>, on a runner
  with the default \<open>maxRetries = 3\<close>: reading \<open>error.message\<close> in the
  \<open>catch\<close> block raises, so \<open>run\<close> ends after one attempt with a
  \<open>TypeError\<close> and the dead-letter hook is never invoked.
\<close>

theorem nullish_rejection_no_dead_letter:
  "maxRetries (serving (Rejects 10 Nullish)) = 3
   \<and> fst (run (serving (Rejects 10 Nullish)) None machine0) = Inl TypeError
   \<and> handler_calls (trace (snd (run (serving (Rejects 10 Nullish)) None machine0))) = 1
   \<and> dead_letters (trace (snd (run (serving (Rejects 10 Nullish)) None machine0))) = []"
  by (simp add: run_def sample_runners run_loop.simps machine_ops)

text \<open>
  Claim C2 at an operation that fails once and then succeeds, on a runner with the
  default \<open>maxRetries = 3\<close>: when the failure is an \<open>Error\<close> the run returns
  the result after two attempts and one delay of 2000; when the failure is a
  rejection with \<open>undefined\<close> the run ends after one attempt with a
  \<open>TypeError\<close> and no delay.
\<close>

theorem nullish_rejection_no_retry:
  "fst (run (flaky (Thrown (Some ''boom'') 7) 1) None machine0) = Inr (Some ''done'')
   \<and> handler_calls (trace (snd (run (flaky (Thrown (Some ''boom'') 7) 1) None machine0))) = 2
   \<and> delays (trace (snd (run (flaky (Thrown (Some ''boom'') 7) 1) None machine0))) = [2000]
   \<and> fst (run (flaky Nullish 1) None machine0) = Inl TypeError
   \<and> handler_calls (trace (snd (run (flaky Nullish 1) None machine0))) = 1
   \<and> delays (trace (snd (run (flaky Nullish 1) None machine0))) = []"
  by (simp add: run_def sample_runners run_loop.simps machine_ops)

text \<open>
  Claim C6 at the first and at the last attempt of a runner with the default
  \<open>maxRetries = 3\<close>: a rejection with an \<open>Error\<close> is retried, and
  dead-lettered and rethrown at the end; a rejection with \<open>undefined\<close> is
  neither retried nor dead-lettered, and a \<open>TypeError\<close> is thrown in its place.
\<close>

theorem nullish_rejection_handled_differently:
  "fst (run_attempt (serving (Rejects 10 (Thrown (Some ''boom'') 7))) [] 1 machine0) = Continue
   \<and> fst (run_attempt (serving (Rejects 10 Nullish)) [] 1 machine0) = Throw TypeError
   \<and> fst (run_attempt (serving (Rejects 10 (Thrown (Some ''boom'') 7))) [] 4 machine0)
       = Throw (Thrown (Some ''boom'') 7)
   \<and> dead_letters (trace (snd (run_attempt (serving (Rejects 10 (Thrown (Some ''boom'') 7))) [] 4 machine0)))
       = [(Thrown (Some ''boom'') 7, [])]
   \<and> fst (run_attempt (serving (Rejects 10 Nullish)) [] 4 machine0) = Throw TypeError
   \<and> dead_letters (trace (snd (run_attempt (serving (Rejects 10 Nullish)) [] 4 machine0))) = []"
  by (simp add: sample_runners machine_ops)

section \<open>Properties of the retry helper and the circuit breaker\<close>

lemma invocations_append: "invocations (xs @ ys) = invocations xs + invocations ys"
  by (induction xs rule: invocations.induct) simp_all


subsection \<open>retryRequest, call by call\<close>

lemma retryRequest_settled:
  assumes "outcome_of fn (net st) 0 = Inr v \<or> retries \<le> 0"
  shows "retryRequest fn retries st =
    (outcome_of fn (net st) 0,
     elapse (snd (fst (fn (net st)))) ((journal_add Invoked st)\<lparr>net := snd (fn (net st))\<rparr>))"
  using assms
  by (subst retryRequest.simps)
     (auto simp: outcome_of_def Let_def split: sum.splits)

lemma retryRequest_again:
  assumes "outcome_of fn (net st) 0 = Inl err" "0 < retries"
  shows "retryRequest fn retries st =
    retryRequest fn (retries - 1)
      (elapse 500 (journal_add (Paused 500)
         (elapse (snd (fst (fn (net st)))) ((journal_add Invoked st)\<lparr>net := snd (fn (net st))\<rparr>))))"
  using assms
  by (subst retryRequest.simps)
     (auto simp: outcome_of_def Let_def split: sum.splits)


subsection \<open>The circuit while no call is in flight\<close>

text \<open>
  Time never runs backwards, and with every call finished only new calls and the
  passing of time can happen: while the clock is before \<open>circuitOpenUntil\<close>
  they leave the breaker as it is and issue no request.
\<close>

lemma on_settled_clock: "date_now (snd (on_settled call outcome st)) = date_now st"
  by (cases "(call, outcome, st)" rule: on_settled.cases)
     (simp_all add: journal_add_def recordFailure_def recordSuccess_def Let_def)

lemma on_timer_clock: "date_now (snd (on_timer call st)) = date_now st"
  by (cases "(call, st)" rule: on_timer.cases) (simp_all add: journal_add_def)

lemma deliver_clock_mono:
  assumes "deliver a (st, calls) = Some (st', calls')"
  shows "date_now st \<le> date_now st'"
proof (cases a)
  case (Call config fallback)
  with assms show ?thesis
    by (auto simp: begin_call_def journal_add_def split: if_splits)
next
  case (Settle pid outcome)
  with assms have "st' = snd (on_settled (calls ! pid) outcome st)"
    by (auto split: if_splits call_state.splits prod.splits)
  then show ?thesis by (simp add: on_settled_clock)
next
  case (Timer pid)
  with assms have "st' = snd (on_timer (calls ! pid) st)"
    by (auto split: if_splits call_state.splits prod.splits)
  then show ?thesis by (simp add: on_timer_clock)
next
  case (Tick ms)
  with assms show ?thesis by (auto simp: elapse_def)
qed

lemma finished_nth:
  assumes "\<forall>call \<in> set calls. finished call" "pid < length calls"
  obtains v where "calls ! pid = Finished v"
  using assms by (metis finished.elims(2) nth_mem)

lemma deliver_nothing_in_flight:
  assumes "\<forall>call \<in> set calls. finished call"
  shows "deliver (Settle pid outcome) (st, calls) = None"
    and "deliver (Timer pid) (st, calls) = None"
proof -
  show "deliver (Settle pid outcome) (st, calls) = None"
  proof (cases "pid < length calls")
    case True
    with assms obtain v where "calls ! pid = Finished v" by (rule finished_nth)
    with True show ?thesis by simp
  qed simp
  show "deliver (Timer pid) (st, calls) = None"
  proof (cases "pid < length calls")
    case True
    with assms obtain v where "calls ! pid = Finished v" by (rule finished_nth)
    with True show ?thesis by simp
  qed simp
qed

lemma exec_clock_mono:
  assumes "exec as (st, calls) = Some (st', calls')"
  shows "date_now st \<le> date_now st'"
  using assms
proof (induction as arbitrary: st calls)
  case Nil
  then show ?case by simp
next
  case (Cons a as)
  then obtain st1 calls1 where d: "deliver a (st, calls) = Some (st1, calls1)"
    and e: "exec as (st1, calls1) = Some (st', calls')"
    by (auto split: option.splits)
  from deliver_clock_mono [OF d] Cons.IH [OF e] show ?case by simp
qed

lemma deliver_while_open:
  assumes "circuitOpenUntil st = Some until" "until \<noteq> 0" "date_now st' < until"
    and "\<forall>call \<in> set calls. finished call"
    and "deliver a (st, calls) = Some (st', calls')"
  shows "invocations (journal st') = invocations (journal st)
    \<and> circuitOpenUntil st' = Some until
    \<and> dependencyFailures st' = dependencyFailures st
    \<and> (\<forall>call \<in> set calls'. finished call)"
proof (cases a)
  case (Call config fallback)
  from deliver_clock_mono [OF assms(5)] assms(3) have "date_now st < until" by simp
  with assms(1,2) have "isCircuitOpen st" by (simp add: isCircuitOpen_def)
  with assms(1,4,5) Call show ?thesis
    by (auto simp: begin_call_def journal_add_def invocations_append)
next
  case (Settle pid outcome)
  have "deliver a (st, calls) = None"
    unfolding Settle by (rule deliver_nothing_in_flight(1) [OF assms(4)])
  with assms(5) show ?thesis by simp
next
  case (Timer pid)
  have "deliver a (st, calls) = None"
    unfolding Timer by (rule deliver_nothing_in_flight(2) [OF assms(4)])
  with assms(5) show ?thesis by simp
next
  case (Tick ms)
  with assms(1,4,5) show ?thesis
    by (auto simp: elapse_def)
qed

lemma exec_while_open:
  assumes "circuitOpenUntil st = Some until" "until \<noteq> 0"
    and "\<forall>call \<in> set calls. finished call"
    and "exec as (st, calls) = Some (st', calls')"
    and "date_now st' < until"
  shows "invocations (journal st') = invocations (journal st)
    \<and> circuitOpenUntil st' = Some until
    \<and> dependencyFailures st' = dependencyFailures st
    \<and> (\<forall>call \<in> set calls'. finished call)"
  using assms
proof (induction as arbitrary: st calls)
  case Nil
  then show ?case by simp
next
  case (Cons a as)
  then obtain st1 calls1 where d: "deliver a (st, calls) = Some (st1, calls1)"
    and e: "exec as (st1, calls1) = Some (st', calls')"
    by (auto split: option.splits)
  from exec_clock_mono [OF e] Cons.prems(5) have before: "date_now st1 < until" by simp
  note one = deliver_while_open [OF Cons.prems(1,2) before Cons.prems(3) d]
  from one have o1: "circuitOpenUntil st1 = Some until" and o2: "\<forall>call \<in> set calls1. finished call"
    by blast+
  from Cons.IH [OF o1 Cons.prems(2) o2 e Cons.prems(5)] one show ?case by simp
qed

lemma recordFailure_crossing:
  assumes "4 \<le> dependencyFailures st"
  shows "circuitOpenUntil (recordFailure st) = Some (date_now st + 60000)"
    and "date_now (recordFailure st) = date_now st"
  using assms by (simp_all add: recordFailure_def Let_def journal_add_def)

lemma on_settled_invocations:
  "invocations (journal (snd (on_settled call outcome st))) = invocations (journal st)"
  by (cases "(call, outcome, st)" rule: on_settled.cases)
     (simp_all add: journal_add_def recordFailure_def recordSuccess_def Let_def invocations_append)

lemma deliver_invocations_mono:
  assumes "deliver a (st, calls) = Some (st', calls')"
  shows "invocations (journal st) \<le> invocations (journal st')"
proof (cases a)
  case (Call config fallback)
  with assms show ?thesis
    by (auto simp: begin_call_def journal_add_def invocations_append split: if_splits)
next
  case (Settle pid outcome)
  with assms have "st' = snd (on_settled (calls ! pid) outcome st)"
    by (auto split: if_splits call_state.splits prod.splits)
  then show ?thesis by (simp add: on_settled_invocations)
next
  case (Timer pid)
  with assms have "st' = snd (on_timer (calls ! pid) st)"
    by (auto split: if_splits call_state.splits prod.splits)
  then show ?thesis
    by (cases "(calls ! pid, st)" rule: on_timer.cases)
       (simp_all add: journal_add_def invocations_append)
next
  case (Tick ms)
  with assms show ?thesis by (auto simp: elapse_def)
qed

lemma exec_invocations_mono:
  assumes "exec as (st, calls) = Some (st', calls')"
  shows "invocations (journal st) \<le> invocations (journal st')"
  using assms
proof (induction as arbitrary: st calls)
  case Nil
  then show ?case by simp
next
  case (Cons a as)
  then obtain st1 calls1 where d: "deliver a (st, calls) = Some (st1, calls1)"
    and e: "exec as (st1, calls1) = Some (st', calls')"
    by (auto split: option.splits)
  from deliver_invocations_mono [OF d] Cons.IH [OF e] show ?case by simp
qed

text \<open>
  As long as no request has been issued, the breaker is as the crossing left it.
\<close>

lemma deliver_before_first_request:
  assumes "circuitOpenUntil st = Some until"
    and "\<forall>call \<in> set calls. finished call"
    and "deliver a (st, calls) = Some (st', calls')"
    and "invocations (journal st') = invocations (journal st)"
  shows "circuitOpenUntil st' = Some until \<and> (\<forall>call \<in> set calls'. finished call)"
proof (cases a)
  case (Call config fallback)
  with assms show ?thesis
    by (auto simp: begin_call_def journal_add_def invocations_append split: if_splits)
next
  case (Settle pid outcome)
  have "deliver a (st, calls) = None"
    unfolding Settle by (rule deliver_nothing_in_flight(1) [OF assms(2)])
  with assms(3) show ?thesis by simp
next
  case (Timer pid)
  have "deliver a (st, calls) = None"
    unfolding Timer by (rule deliver_nothing_in_flight(2) [OF assms(2)])
  with assms(3) show ?thesis by simp
next
  case (Tick ms)
  with assms(1,2,3) show ?thesis by (auto simp: elapse_def)
qed

lemma exec_before_first_request:
  assumes "circuitOpenUntil st = Some until"
    and "\<forall>call \<in> set calls. finished call"
    and "exec as (st, calls) = Some (st', calls')"
    and "invocations (journal st') = invocations (journal st)"
  shows "circuitOpenUntil st' = Some until"
  using assms
proof (induction as arbitrary: st calls)
  case Nil
  then show ?case by simp
next
  case (Cons a as)
  then obtain st1 calls1 where d: "deliver a (st, calls) = Some (st1, calls1)"
    and e: "exec as (st1, calls1) = Some (st', calls')"
    by (auto split: option.splits)
  from deliver_invocations_mono [OF d] exec_invocations_mono [OF e] Cons.prems(4)
  have same1: "invocations (journal st1) = invocations (journal st)"
    and same2: "invocations (journal st') = invocations (journal st1)" by simp_all
  from deliver_before_first_request [OF Cons.prems(1,2) d same1]
  have o1: "circuitOpenUntil st1 = Some until" and o2: "\<forall>call \<in> set calls1. finished call"
    by blast+
  from Cons.IH [OF o1 o2 e same2] show ?case .
qed

text \<open>A call that finds the circuit not open reaches the dependency.\<close>

lemma retryRequest_invokes:
  "invocations (journal st) < invocations (journal (snd (retryRequest fn retries st)))"
proof (induction fn retries st rule: retryRequest.induct)
  case (1 fn retries st)
  show ?case
  proof (cases "outcome_of fn (net st) 0")
    case (Inr v)
    then show ?thesis
      by (simp add: retryRequest_settled [of fn st v retries] elapse_def journal_add_def
          invocations_append)
  next
    case (Inl err)
    show ?thesis
    proof (cases "retries \<le> 0")
      case True
      then show ?thesis
        by (simp add: retryRequest_settled [of fn st undefined retries] elapse_def journal_add_def
            invocations_append)
    next
      case False
      then have pos: "0 < retries" by simp
      from Inl have first: "fst (fst (fn (net st))) = Inl err"
        by (simp add: outcome_of_def)
      note ih = "1.IH" [OF refl refl first False]
      have "invocations (journal st)
          \<le> invocations (journal (elapse 500 (journal_add (Paused 500)
               (elapse (snd (fst (fn (net st)))) ((journal_add Invoked st)\<lparr>net := snd (fn (net st))\<rparr>)))))"
        by (simp add: elapse_def journal_add_def invocations_append)
      with ih show ?thesis
        by (simp add: retryRequest_again [OF Inl pos])
    qed
  qed
qed

lemma callDependency_invokes:
  assumes "\<not> isCircuitOpen s"
  shows "invocations (journal s) < invocations (journal (snd (callDependency request config fallback s)))"
proof -
  obtain out s' where r: "retryRequest (request config) 2 s = (out, s')"
    by (cases "retryRequest (request config) 2 s")
  from retryRequest_invokes [of s "request config" 2] r
  have "invocations (journal s) < invocations (journal s')" by simp
  with assms r show ?thesis
    by (cases out)
       (simp_all add: callDependency_def retryRequest_opt_def recordSuccess_def recordFailure_def
          journal_add_def Let_def invocations_append)
qed

subsection \<open>A call alone, step by step\<close>

text \<open>
  \<open>callDependency\<close>, as translated with \<open>retryRequest\<close>, and the same
  call driven from one \<open>await\<close> to the next without anything in between
  give the same value and leave the same server.
\<close>

lemma retryRequest_as_call:
  "(case retryRequest (request config) retries st of
      (Inr data, st') \<Rightarrow> (data, recordSuccess st')
    | (Inl err, st') \<Rightarrow> (fallback, journal_add (ErrorDependencyFailure err) (recordFailure st')))
   = drive request (Awaiting config fallback retries) (journal_add Invoked st)"
proof (induction "request config" retries st rule: retryRequest.induct)
  case (1 retries st)
  define called where "called = request config (net st)"
  define st1 where "st1 = elapse (snd (fst called)) ((journal_add Invoked st)\<lparr>net := snd called\<rparr>)"
  show ?case
  proof (cases "fst (fst called)")
    case (Inr data)
    then show ?thesis
      by (subst retryRequest.simps, subst drive.simps)
         (simp add: called_def [symmetric] Let_def journal_add_def drive.simps(1))
  next
    case (Inl err)
    show ?thesis
    proof (cases "retries \<le> 0")
      case True
      with Inl show ?thesis
        by (subst retryRequest.simps, subst drive.simps)
           (simp add: called_def [symmetric] Let_def journal_add_def drive.simps(1))
    next
      case False
      have ih: "(case retryRequest (request config) (retries - 1) (elapse 500 (journal_add (Paused 500) st1)) of
          (Inr data, st') \<Rightarrow> (data, recordSuccess st')
        | (Inl err, st') \<Rightarrow> (fallback, journal_add (ErrorDependencyFailure err) (recordFailure st')))
        = drive request (Awaiting config fallback (retries - 1))
            (journal_add Invoked (elapse 500 (journal_add (Paused 500) st1)))"
        using "1.hyps" [OF refl refl Inl [unfolded called_def] False]
        by (simp add: called_def st1_def)
      have l: "retryRequest (request config) retries st
          = retryRequest (request config) (retries - 1) (elapse 500 (journal_add (Paused 500) st1))"
        using Inl False
        by (subst retryRequest.simps) (simp add: called_def [symmetric] st1_def [symmetric] Let_def)
      have r: "drive request (Awaiting config fallback retries) (journal_add Invoked st)
          = drive request (Awaiting config fallback (retries - 1))
              (journal_add Invoked (elapse 500 (journal_add (Paused 500) st1)))"
        using Inl False
        by (subst drive.simps, simp add: Let_def journal_add_def called_def [symmetric],
            subst drive.simps, simp add: st1_def journal_add_def elapse_def called_def)
      show ?thesis unfolding l r by (rule ih)
    qed
  qed
qed

lemma callDependency_as_call:
  "callDependency request config fallback st =
     (case begin_call config fallback st of (call, st') \<Rightarrow> drive request call st')"
  using retryRequest_as_call [where request = request and config = config and retries = 2
      and st = st and fallback = fallback]
  by (simp add: callDependency_def begin_call_def retryRequest_opt_def drive.simps(1))

section \<open>The claims about the server bootstrap\<close>

lemmas server_ops = begin_call_def isCircuitOpen_def journal_add_def elapse_def
  recordFailure_def recordSuccess_def Let_def



text \<open>
  Claim C7 as stated fails when calls overlap. In the sample schedule the fifth
  failure is recorded at time 1000 and opens the circuit until time 61000; the
  sixth call entered before that, and when its timer fires at time 4500, with the
  circuit open, \<open>retryRequest\<close> issues its second request to the dependency.
\<close>

theorem request_issued_while_circuit_open:
  "exec overlap_schedule (server0, []) = Some (overlap_server, overlap_calls)
   \<and> isCircuitOpen overlap_server
   \<and> date_now overlap_server = 4500
   \<and> circuitOpenUntil overlap_server = Some 61000
   \<and> deliver (Timer 5) (overlap_server, overlap_calls)
       = Some (journal_add Invoked overlap_server, overlap_calls[5 := Awaiting ''/feed'' None 1])"
  by (simp add: overlap_schedule_def server0_def overlap_server_def overlap_calls_def server_ops)

text \<open>
  A call in flight at the crossing moves the window. In the sample schedule the
  sixth call is still waiting for its first response at time 4000: when that
  response is a success, \<open>recordSuccess\<close> closes the circuit then; when it and
  the two retries fail, \<open>recordFailure\<close> at time 5000 opens the circuit until
  time 65000.
\<close>

lemma in_flight_call_moves_the_window:
  "map_option (\<lambda>sys. (isCircuitOpen (fst sys), circuitOpenUntil (fst sys)))
     (exec (take 34 overlap_schedule @ [Settle 5 (Inr (Some 1))]) (server0, []))
     = Some (False, None)
   \<and> map_option (\<lambda>sys. (date_now (fst sys), circuitOpenUntil (fst sys)))
     (exec (overlap_schedule @ [Timer 5, Settle 5 (Inl ''refused''), Tick 500, Timer 5,
        Settle 5 (Inl ''refused'')]) (server0, []))
     = Some (5000, Some 65000)"
  by (simp add: overlap_schedule_def server0_def server_ops)

text \<open>
  Claim C7, as amended. The recorded failure that brings the counter to five or
  more sets the circuit open until 60 seconds after it; a failure below that
  leaves \<open>circuitOpenUntil\<close> as it is; a recorded success resets the counter
  and closes the circuit. A call of \<open>callDependency\<close> made while the circuit is
  open returns the fallback without invoking the dependency and changes nothing
  but the log; a call made while it is not open invokes the dependency. When no
  call is in flight at the crossing, then whatever calls arrive and however time
  passes: before the 60 seconds are over no request is issued to the dependency
  and the circuit is open; and for as long as no request has been issued, the
  circuit is open exactly while fewer than 60 seconds have passed since the
  crossing.
\<close>

theorem cooldown_blocks_new_calls:
  assumes "4 \<le> dependencyFailures st"
    and "\<forall>call \<in> set calls. finished call"
    and "exec as (recordFailure st, calls) = Some (st', calls')"
  shows "circuitOpenUntil (recordFailure st) = Some (date_now st + 60000)
   \<and> (date_now st' < date_now st + 60000 \<longrightarrow>
        invocations (journal st') = invocations (journal (recordFailure st)) \<and> isCircuitOpen st')
   \<and> (invocations (journal st') = invocations (journal (recordFailure st)) \<longrightarrow>
        isCircuitOpen st' = (date_now st' < date_now st + 60000))
   \<and> (isCircuitOpen s \<longrightarrow>
        callDependency request config fallback s = (fallback, journal_add WarnCircuitOpen s))
   \<and> (\<not> isCircuitOpen s \<longrightarrow>
        invocations (journal s)
          < invocations (journal (snd (callDependency request config fallback s))))
   \<and> (dependencyFailures u < 4 \<longrightarrow> circuitOpenUntil (recordFailure u) = circuitOpenUntil u)
   \<and> dependencyFailures (recordSuccess v) = 0
   \<and> \<not> isCircuitOpen (recordSuccess v)"
proof -
  note crossed = recordFailure_crossing [OF assms(1)]
  have nz: "date_now st + 60000 \<noteq> 0" by simp
  have during: "invocations (journal st') = invocations (journal (recordFailure st))
      \<and> isCircuitOpen st'" if "date_now st' < date_now st + 60000"
    using exec_while_open [OF crossed(1) nz assms(2,3) that] that
    by (simp add: isCircuitOpen_def)
  have bound: "isCircuitOpen st' = (date_now st' < date_now st + 60000)"
    if "invocations (journal st') = invocations (journal (recordFailure st))"
    using exec_before_first_request [OF crossed(1) assms(2,3) that]
    by (simp add: isCircuitOpen_def)
  have served: "isCircuitOpen s \<longrightarrow>
      callDependency request config fallback s = (fallback, journal_add WarnCircuitOpen s)"
    by (simp add: callDependency_def)
  have passed: "\<not> isCircuitOpen s \<longrightarrow>
      invocations (journal s)
        < invocations (journal (snd (callDependency request config fallback s)))"
    by (simp add: callDependency_invokes)
  have below: "dependencyFailures u < 4 \<longrightarrow>
      circuitOpenUntil (recordFailure u) = circuitOpenUntil u"
    by (simp add: recordFailure_def Let_def)
  have reset: "dependencyFailures (recordSuccess v) = 0 \<and> \<not> isCircuitOpen (recordSuccess v)"
    by (simp add: recordSuccess_def isCircuitOpen_def)
  from crossed(1) during bound served passed below reset show ?thesis by blast
qed

theorem cooldown_blocks_new_calls_witness:
  "4 \<le> dependencyFailures strained
   \<and> finished (Finished (Some 1) :: (string, nat) call_state)
   \<and> exec quiet_schedule (recordFailure strained, [Finished (Some 1)])
       = Some (quiet_server, quiet_calls)
   \<and> circuitOpenUntil (recordFailure strained) = Some 61000
   \<and> date_now quiet_server < date_now strained + 60000
   \<and> invocations (journal quiet_server) = invocations (journal (recordFailure strained))
   \<and> isCircuitOpen quiet_server
   \<and> exec lapsed_schedule (recordFailure strained, [Finished (Some 1)])
       = Some (lapsed_server, quiet_calls)
   \<and> invocations (journal lapsed_server) = invocations (journal (recordFailure strained))
   \<and> date_now lapsed_server = date_now strained + 60000
   \<and> \<not> isCircuitOpen lapsed_server
   \<and> callDependency (\<lambda>config. unreliable 0) ''/feed'' (Some ''cached'') quiet_server
       = (Some ''cached'', journal_add WarnCircuitOpen quiet_server)
   \<and> invocations (journal lapsed_server)
       < invocations (journal (snd (callDependency (\<lambda>config. unreliable 0) ''/feed''
           (Some ''cached'') lapsed_server)))
   \<and> fst (callDependency (\<lambda>config. unreliable 0) ''/feed'' (Some ''cached'') lapsed_server)
       = Some ''body''
   \<and> dependencyFailures (server0 :: (nat, string) server) < 4
   \<and> circuitOpenUntil (recordFailure (server0 :: (nat, string) server)) = None
   \<and> dependencyFailures (recordSuccess quiet_server) = 0
   \<and> \<not> isCircuitOpen (recordSuccess quiet_server)"
  using cooldown_blocks_new_calls
    [where st = strained and calls = "[Finished (Some 1)]" and as = quiet_schedule
       and st' = quiet_server and calls' = quiet_calls and s = quiet_server
       and request = "\<lambda>config. unreliable 0" and config = "''/feed''"
       and fallback = "Some ''cached''" and u = "server0 :: (nat, string) server"
       and v = quiet_server]
    cooldown_blocks_new_calls
    [where st = strained and calls = "[Finished (Some 1)]" and as = lapsed_schedule
       and st' = lapsed_server and calls' = quiet_calls and s = lapsed_server
       and request = "\<lambda>config. unreliable 0" and config = "''/feed''"
       and fallback = "Some ''cached''" and u = "server0 :: (nat, string) server"
       and v = quiet_server]
  by (simp add: strained_def quiet_schedule_def quiet_server_def quiet_calls_def
      lapsed_schedule_def lapsed_server_def server0_def unreliable_def
      callDependency_def retryRequest_opt_def retryRequest.simps server_ops)

end
